theory Spec2Isabelle
  imports Main "HOL-Library.List_Lexorder" "HOL-Library.Char_ord"
begin

section \<open>Python strings\<close>

text \<open>
  A Python \<open>str\<close> is modelled as a \<^typ>\<open>string\<close>; each \<^typ>\<open>char\<close> is read as the
  code point of the same number (U+0000 to U+00FF).  On these code points
  \<open>str.isspace\<close>, \<open>str.strip\<close> and the regular-expression class \<open>\s\<close> agree on the
  twelve characters below, and \<open>str.isupper\<close> holds for A-Z and for the capital
  letters of the Latin-1 block.
\<close>

definition py_isspace :: "char \<Rightarrow> bool" where
  "py_isspace c =
     (let n = of_char c :: nat in (9 \<le> n \<and> n \<le> 13) \<or> (28 \<le> n \<and> n \<le> 32) \<or> n = 133 \<or> n = 160)"

definition py_isupper :: "char \<Rightarrow> bool" where
  "py_isupper c =
     (let n = of_char c :: nat in (65 \<le> n \<and> n \<le> 90) \<or> (192 \<le> n \<and> n \<le> 222 \<and> n \<noteq> 215))"

text \<open>\<open>s.startswith(p)\<close>\<close>

definition startswith :: "string \<Rightarrow> string \<Rightarrow> bool" where
  "startswith s p = (take (length p) s = p)"

text \<open>\<open>s.strip()\<close>: whitespace removed at both ends.\<close>

definition py_strip :: "string \<Rightarrow> string" where
  "py_strip s = rev (dropWhile py_isspace (rev (dropWhile py_isspace s)))"

text \<open>\<open>s.rstrip('/')\<close>\<close>

definition rstrip_slash :: "string \<Rightarrow> string" where
  "rstrip_slash s = rev (dropWhile (\<lambda>c. c = CHR ''/'') (rev s))"

text \<open>
  \<open>s.split(sep)\<close> for a one-character separator: the pieces between the
  separators, never an empty list (\<open>''.split('\n') == ['']\<close>).
\<close>

fun py_split :: "char \<Rightarrow> string \<Rightarrow> string list" where
  "py_split sep [] = [[]]"
| "py_split sep (c # cs) =
     (if c = sep then [] # py_split sep cs
      else (case py_split sep cs of
              [] \<Rightarrow> [[c]]
            | p # ps \<Rightarrow> (c # p) # ps))"

section \<open>The regular expression of \<open>extract_base_images\<close>\<close>

text \<open>
  \<open>re.match(pattern, line, re.IGNORECASE)\<close> is a backtracking matcher anchored at
  the start of the line.  The pattern uses literals (compared ignoring case), the
  classes \<open>\s\<close> and \<open>[^\s]\<close> under the greedy \<open>*\<close> and \<open>+\<close>, a greedy optional
  non-capturing group \<open>(?:...)?\<close> and one capturing group.
\<close>

datatype cls = Space | NonSpace

datatype rx =
    Lit char
  | Star cls
  | Plus cls
  | Opt "rx list"
  | Grp "rx list"

fun in_cls :: "cls \<Rightarrow> char \<Rightarrow> bool" where
  "in_cls Space c = py_isspace c"
| "in_cls NonSpace c = (\<not> py_isspace c)"

text \<open>Case folding of the letters A-Z, all that \<open>re.IGNORECASE\<close> changes for this pattern.\<close>

definition lower_ascii :: "char \<Rightarrow> char" where
  "lower_ascii c =
     (let n = of_char c :: nat in if 65 \<le> n \<and> n \<le> 90 then char_of (n + 32) else c)"

text \<open>
  A matcher state is the rest of the line and the text of group 1, if the group has
  taken part in the match so far.  \<open>ms r st\<close> lists every state in which \<open>r\<close> can
  finish when started in \<open>st\<close>, in the order in which a backtracking matcher tries them:
  a greedy repetition offers its longest run first, a greedy optional group offers
  its body before the empty match.
\<close>

type_synonym mstate = "string \<times> string option"

fun ms :: "rx \<Rightarrow> mstate \<Rightarrow> mstate list"
  and ms_seq :: "rx list \<Rightarrow> mstate \<Rightarrow> mstate list" where
  "ms (Lit c) (s, g) =
     (case s of [] \<Rightarrow> [] | x # xs \<Rightarrow> if lower_ascii x = lower_ascii c then [(xs, g)] else [])"
| "ms (Star k) (s, g) =
     map (\<lambda>i. (drop i s, g)) (rev [0 ..< Suc (length (takeWhile (in_cls k) s))])"
| "ms (Plus k) (s, g) =
     map (\<lambda>i. (drop i s, g)) (rev [1 ..< Suc (length (takeWhile (in_cls k) s))])"
| "ms (Opt rs) st = ms_seq rs st @ [st]"
| "ms (Grp rs) (s, g) =
     map (\<lambda>(s', _). (s', Some (take (length s - length s') s))) (ms_seq rs (s, g))"
| "ms_seq [] st = [st]"
| "ms_seq (r # rs) st = concat (map (ms_seq rs) (ms r st))"

text \<open>\<open>re.match\<close> takes the first way to match the whole pattern; \<open>group(1)\<close> of it.\<close>

definition re_match_group1 :: "rx list \<Rightarrow> string \<Rightarrow> string option" where
  "re_match_group1 p line =
     (case ms_seq p (line, None) of [] \<Rightarrow> None | (_, g) # _ \<Rightarrow> g)"

text \<open>
  \<^verbatim>\<open>^\s*FROM\s+(?:--platform=[^\s]+\s+)?([^\s]+)(?:\s+AS\s+[^\s]+)?\<close>
  (the anchor \<open>^\<close> is the start of the line, where \<open>re.match\<close> begins anyway).
\<close>

definition from_pattern :: "rx list" where
  "from_pattern =
     [Star Space] @ map Lit ''FROM'' @ [Plus Space,
      Opt (map Lit ''--platform='' @ [Plus NonSpace, Plus Space]),
      Grp [Plus NonSpace],
      Opt ([Plus Space] @ map Lit ''AS'' @ [Plus Space, Plus NonSpace])]"

section \<open>The scanner object\<close>

text \<open>
  The fields of \<open>BitbucketDockerScanner\<close> that the methods read or write:
  \<open>base_url\<close> and the accumulator \<open>base_images\<close>.  The authenticated session is
  the environment the network methods are given (below).
\<close>

record scanner =
  base_url :: string
  base_images :: "string set"

text \<open>\<open>__init__\<close>: the URL without trailing slashes, an empty accumulator.\<close>

definition init :: "string \<Rightarrow> scanner" where
  "init url = \<lparr>base_url = rstrip_slash url, base_images = {}\<rparr>"

section \<open>\<open>extract_base_images\<close>\<close>

text \<open>
  The body of the \<open>for line in ...\<close> loop, with the local set \<open>images\<close> passed
  along.  The three branches of the classification are those of the source, with
  Python's precedence: \<open>not a and b or c or d\<close> is \<open>((not a) and b) or c or d\<close>.
\<close>

fun extract_lines :: "string list \<Rightarrow> string set \<Rightarrow> string set" where
  "extract_lines [] images = images"
| "extract_lines (line # rest) images =
     (if startswith (py_strip line) ''#'' then extract_lines rest images
      else
        (case re_match_group1 from_pattern line of
           None \<Rightarrow> extract_lines rest images
         | Some img \<Rightarrow>
             if (\<not> startswith img ''$'' \<and> CHR '':'' \<in> set img)
                  \<or> CHR ''/'' \<in> set img \<or> CHR ''@'' \<in> set img
             then extract_lines rest (insert img images)
             else if \<not> list_ex py_isupper img \<and> CHR '':'' \<notin> set img
             then extract_lines rest images
             else extract_lines rest (insert img images)))"

text \<open>
  The method takes \<open>self\<close>, as in the source, and splits the text at line feeds
  (\<open>split('\n')\<close>).
\<close>

definition extract_base_images :: "scanner \<Rightarrow> string \<Rightarrow> string set" where
  "extract_base_images self dockerfile_content =
     extract_lines (py_split (CHR 0x0A) dockerfile_content) {}"

section \<open>The Bitbucket session\<close>

text \<open>
  The network side of the scanner is \<open>self.session.get(url, params)\<close> followed by
  \<open>raise_for_status()\<close> and \<open>response.json()\<close> or \<open>response.text\<close>.  Each of the
  three can raise a \<open>RequestException\<close>, which every caller catches; the
  environment answers a request with that exception or with the decoded body.
  One environment is one function of the request: a GET repeated with the same
  URL and parameters is answered the same way.

  A decoded listing page carries the three keys the code reads, each possibly
  absent: \<open>values\<close> (the items), \<open>isLastPage\<close> (read for its truth value) and
  \<open>nextPageStart\<close> (read only through an f-string, so kept as the text it
  formats to).  A project or repository item is a dictionary from field names
  to the text of their values; a file item is a path.
\<close>

datatype request_exception = RequestException string

datatype error = KeyError string

record 'a page =
  page_values :: "'a list option"
  isLastPage :: "bool option"
  nextPageStart :: "string option"

type_synonym dict = "string \<rightharpoonup> string"

type_synonym params = "(string \<times> nat) list"

text \<open>
  \<open>list_of_set\<close> is the order in which the interpreter enumerates a set of
  strings in \<open>list(set(...))\<close>; it depends on string hashing and the model leaves
  it open.
\<close>

record env =
  get_json_dicts :: "string \<Rightarrow> params \<Rightarrow> request_exception + dict page"
  get_json_paths :: "string \<Rightarrow> params \<Rightarrow> request_exception + string page"
  get_text :: "string \<Rightarrow> request_exception + string"
  list_of_set :: "string set \<Rightarrow> string list"

text \<open>\<open>d.get(key, default)\<close> on a key that may be absent.\<close>

definition dict_get :: "'a option \<Rightarrow> 'a \<Rightarrow> 'a" where
  "dict_get v d = (case v of None \<Rightarrow> d | Some x \<Rightarrow> x)"

section \<open>The listing methods\<close>

text \<open>
  The \<open>while url:\<close> loops may run forever, so they are partial functions:
  \<open>None\<close> is a call that does not return.  \<open>break\<close> and the end of the loop
  return the list accumulated so far.
\<close>

definition projects_url :: "scanner \<Rightarrow> string" where
  "projects_url self = base_url self @ ''/rest/api/1.0/projects''"

partial_function (option) get_projects_loop ::
  "env \<Rightarrow> scanner \<Rightarrow> string \<Rightarrow> dict list \<Rightarrow> dict list option" where
  "get_projects_loop env self url projects =
     (if url = [] then Some projects
      else
        (case get_json_dicts env url [] of
           Inl e \<Rightarrow> Some projects
         | Inr data \<Rightarrow>
             if dict_get (isLastPage data) True
             then Some (projects @ dict_get (page_values data) [])
             else get_projects_loop env self
                    (base_url self @ dict_get (nextPageStart data) [])
                    (projects @ dict_get (page_values data) [])))"

text \<open>\<open>project_keys\<close> is \<open>None\<close> or a list; \<open>if project_keys:\<close> holds for a non-empty list.\<close>

definition get_projects :: "env \<Rightarrow> scanner \<Rightarrow> string list option \<Rightarrow> dict list option" where
  "get_projects env self project_keys =
     (case project_keys of
        Some (k # ks) \<Rightarrow> Some (map (\<lambda>key. [''key'' \<mapsto> key]) (k # ks))
      | _ \<Rightarrow> get_projects_loop env self (projects_url self) [])"

definition repos_url :: "scanner \<Rightarrow> string \<Rightarrow> string" where
  "repos_url self project_key =
     base_url self @ ''/rest/api/1.0/projects/'' @ project_key @ ''/repos''"

partial_function (option) get_repositories_loop ::
  "env \<Rightarrow> scanner \<Rightarrow> string \<Rightarrow> string \<Rightarrow> dict list \<Rightarrow> dict list option" where
  "get_repositories_loop env self project_key url repositories =
     (if url = [] then Some repositories
      else
        (case get_json_dicts env url [(''limit'', 100)] of
           Inl e \<Rightarrow> Some repositories
         | Inr data \<Rightarrow>
             if dict_get (isLastPage data) True
             then Some (repositories @ dict_get (page_values data) [])
             else get_repositories_loop env self project_key
                    (repos_url self project_key)
                    (repositories @ dict_get (page_values data) [])))"

definition get_repositories :: "env \<Rightarrow> scanner \<Rightarrow> string \<Rightarrow> dict list option" where
  "get_repositories env self project_key =
     get_repositories_loop env self project_key (repos_url self project_key) []"

definition files_url :: "scanner \<Rightarrow> string \<Rightarrow> string \<Rightarrow> string" where
  "files_url self project_key repo_slug =
     base_url self @ ''/rest/api/1.0/projects/'' @ project_key @ ''/repos/'' @ repo_slug
       @ ''/files''"

text \<open>
  One round of \<open>for pattern in search_patterns\<close>.  The request does not mention
  \<open>pattern\<close>; a failed request leaves \<open>dockerfiles\<close> as it was.
\<close>

definition search_pass ::
  "env \<Rightarrow> scanner \<Rightarrow> string \<Rightarrow> string \<Rightarrow> string list \<Rightarrow> string \<Rightarrow> string list" where
  "search_pass env self project_key repo_slug dockerfiles pattern =
     (case get_json_paths env (files_url self project_key repo_slug) [(''limit'', 1000)] of
        Inl e \<Rightarrow> dockerfiles
      | Inr data \<Rightarrow>
          dockerfiles @
          filter
            (\<lambda>file_path.
               let file_name = last (py_split (CHR ''/'') file_path)
               in file_name = ''Dockerfile'' \<or> startswith file_name ''Dockerfile.''
                  \<or> file_name = ''dockerfile'' \<or> startswith file_name ''dockerfile.'')
            (dict_get (page_values data) []))"

definition search_dockerfiles :: "env \<Rightarrow> scanner \<Rightarrow> string \<Rightarrow> string \<Rightarrow> string list" where
  "search_dockerfiles env self project_key repo_slug =
     list_of_set env
       (set (foldl (search_pass env self project_key repo_slug) []
               [''Dockerfile'', ''dockerfile'']))"

definition raw_url :: "scanner \<Rightarrow> string \<Rightarrow> string \<Rightarrow> string \<Rightarrow> string" where
  "raw_url self project_key repo_slug file_path =
     base_url self @ ''/rest/api/1.0/projects/'' @ project_key @ ''/repos/'' @ repo_slug
       @ ''/raw/'' @ file_path"

definition get_file_content :: "env \<Rightarrow> scanner \<Rightarrow> string \<Rightarrow> string \<Rightarrow> string \<Rightarrow> string" where
  "get_file_content env self project_key repo_slug file_path =
     (case get_text env (raw_url self project_key repo_slug file_path) of
        Inl e \<Rightarrow> []
      | Inr text \<Rightarrow> text)"

section \<open>\<open>scan\<close>\<close>

text \<open>
  The three nested \<open>for\<close> loops, innermost first, with the scanner object passed
  along: \<open>self.base_images.update(images)\<close> is the only write.  \<open>repo['slug']\<close> and
  \<open>project['key']\<close> raise \<open>KeyError\<close> on an item without the field; the exception
  leaves \<open>scan\<close>, and the object keeps what it had accumulated.  The progress
  messages are not modelled.
\<close>

fun scan_files :: "env \<Rightarrow> string \<Rightarrow> string \<Rightarrow> string list \<Rightarrow> scanner \<Rightarrow> scanner" where
  "scan_files env project_key repo_slug [] self = self"
| "scan_files env project_key repo_slug (dockerfile_path # rest) self =
     (let content = get_file_content env self project_key repo_slug dockerfile_path
      in if content \<noteq> []
         then scan_files env project_key repo_slug rest
                (self\<lparr>base_images := base_images self \<union> extract_base_images self content\<rparr>)
         else scan_files env project_key repo_slug rest self)"

fun scan_repos :: "env \<Rightarrow> string \<Rightarrow> dict list \<Rightarrow> scanner \<Rightarrow> error option \<times> scanner" where
  "scan_repos env project_key [] self = (None, self)"
| "scan_repos env project_key (repo # rest) self =
     (case repo ''slug'' of
        None \<Rightarrow> (Some (KeyError ''slug''), self)
      | Some repo_slug \<Rightarrow>
          (let dockerfiles = search_dockerfiles env self project_key repo_slug
           in if dockerfiles \<noteq> []
              then scan_repos env project_key rest
                     (scan_files env project_key repo_slug dockerfiles self)
              else scan_repos env project_key rest self))"

fun scan_projects :: "env \<Rightarrow> dict list \<Rightarrow> scanner \<Rightarrow> (error option \<times> scanner) option" where
  "scan_projects env [] self = Some (None, self)"
| "scan_projects env (project # rest) self =
     (case project ''key'' of
        None \<Rightarrow> Some (Some (KeyError ''key''), self)
      | Some project_key \<Rightarrow>
          (case get_repositories env self project_key of
             None \<Rightarrow> None
           | Some repositories \<Rightarrow>
               (case scan_repos env project_key repositories self of
                  (Some e, self') \<Rightarrow> Some (Some e, self')
                | (None, self') \<Rightarrow> scan_projects env rest self')))"

text \<open>
  \<open>scan\<close> returns the accumulator of the object, or the exception that left it,
  and the object after the call; \<open>None\<close> when a listing loop does not return.
\<close>

definition scan ::
  "env \<Rightarrow> scanner \<Rightarrow> string list option \<Rightarrow> ((error + string set) \<times> scanner) option" where
  "scan env self project_keys =
     (case get_projects env self project_keys of
        None \<Rightarrow> None
      | Some projects \<Rightarrow>
          (case scan_projects env projects self of
             None \<Rightarrow> None
           | Some (Some e, self') \<Rightarrow> Some (Inl e, self')
           | Some (None, self') \<Rightarrow> Some (Inr (base_images self'), self')))"

text \<open>The loops are run by their defining equations.\<close>

declare get_projects_loop.simps [code]

declare get_repositories_loop.simps [code]

section \<open>Example servers\<close>

text \<open>
  A server whose project \<open>P\<close> lists three repositories on three pages.  The
  pages after the first are requested with the parameter \<open>start\<close>, as the value
  of \<open>nextPageStart\<close> says.
\<close>

definition three_page_repos :: env where
  "three_page_repos =
     \<lparr>get_json_dicts = (\<lambda>url params.
          if url = ''https://bitbucket.example.com/rest/api/1.0/projects/P/repos''
          then (case map_of params ''start'' of
                  None \<Rightarrow>
                    Inr \<lparr>page_values = Some [[''slug'' \<mapsto> ''r1'']],
                         isLastPage = Some False, nextPageStart = Some ''1''\<rparr>
                | Some n \<Rightarrow>
                    if n = 1
                    then Inr \<lparr>page_values = Some [[''slug'' \<mapsto> ''r2'']],
                              isLastPage = Some False, nextPageStart = Some ''2''\<rparr>
                    else Inr \<lparr>page_values = Some [[''slug'' \<mapsto> ''r3'']],
                              isLastPage = Some True, nextPageStart = None\<rparr>)
          else Inl (RequestException ''404'')),
      get_json_paths = (\<lambda>url params. Inl (RequestException ''404'')),
      get_text = (\<lambda>url. Inl (RequestException ''404'')),
      list_of_set = sorted_list_of_set\<rparr>"

text \<open>
  A server whose repository \<open>P/r\<close> lists its files on two pages; the Dockerfile
  is on the second.
\<close>

definition two_page_files :: env where
  "two_page_files =
     \<lparr>get_json_dicts = (\<lambda>url params. Inl (RequestException ''404'')),
      get_json_paths = (\<lambda>url params.
          if url = ''https://bitbucket.example.com/rest/api/1.0/projects/P/repos/r/files''
          then (case map_of params ''start'' of
                  None \<Rightarrow>
                    Inr \<lparr>page_values = Some [''README.md''],
                         isLastPage = Some False, nextPageStart = Some ''1''\<rparr>
                | Some n \<Rightarrow>
                    Inr \<lparr>page_values = Some [''Dockerfile''],
                         isLastPage = Some True, nextPageStart = None\<rparr>)
          else Inl (RequestException ''404'')),
      get_text = (\<lambda>url. Inl (RequestException ''404'')),
      list_of_set = sorted_list_of_set\<rparr>"

text \<open>
  A server with the projects \<open>P1\<close> (one repository, \<open>app\<close>) and \<open>P3\<close> (one
  repository, \<open>svc\<close>); every other request fails, among them the repository
  listing of \<open>P2\<close>.  In \<open>app\<close> one Dockerfile has three \<open>FROM\<close> lines, the content
  of \<open>docker/Dockerfile.prod\<close> cannot be fetched and \<open>ci/dockerfile.ci\<close> is empty.
\<close>

definition demo_server :: env where
  "demo_server =
     \<lparr>get_json_dicts = (\<lambda>url params.
          if url = ''https://bitbucket.example.com/rest/api/1.0/projects/P1/repos''
          then Inr \<lparr>page_values = Some [[''slug'' \<mapsto> ''app'']],
                    isLastPage = Some True, nextPageStart = None\<rparr>
          else if url = ''https://bitbucket.example.com/rest/api/1.0/projects/P3/repos''
          then Inr \<lparr>page_values = Some [[''slug'' \<mapsto> ''svc'']],
                    isLastPage = Some True, nextPageStart = None\<rparr>
          else Inl (RequestException ''404'')),
      get_json_paths = (\<lambda>url params.
          if url = ''https://bitbucket.example.com/rest/api/1.0/projects/P1/repos/app/files''
          then Inr \<lparr>page_values =
                      Some [''Dockerfile'', ''src/main.py'', ''docker/Dockerfile.prod'',
                            ''ci/dockerfile.ci'', ''DockerfileFoo''],
                    isLastPage = Some True, nextPageStart = None\<rparr>
          else if url = ''https://bitbucket.example.com/rest/api/1.0/projects/P3/repos/svc/files''
          then Inr \<lparr>page_values = Some [''Dockerfile''],
                    isLastPage = Some True, nextPageStart = None\<rparr>
          else Inl (RequestException ''404'')),
      get_text = (\<lambda>url.
          if url = ''https://bitbucket.example.com/rest/api/1.0/projects/P1/repos/app/raw/Dockerfile''
          then Inr (''FROM node:18 AS build'' @ [CHR 0x0A] @ ''FROM build AS test''
                      @ [CHR 0x0A] @ ''FROM node:18-slim'')
          else if url = ''https://bitbucket.example.com/rest/api/1.0/projects/P1/repos/app/raw/ci/dockerfile.ci''
          then Inr []
          else if url = ''https://bitbucket.example.com/rest/api/1.0/projects/P3/repos/svc/raw/Dockerfile''
          then Inr ''FROM golang:1.21''
          else Inl (RequestException ''404'')),
      list_of_set = sorted_list_of_set\<rparr>"

text \<open>
  A server with the projects \<open>A\<close> (repositories \<open>web\<close> and \<open>api\<close>) and \<open>C\<close>
  (repository \<open>job\<close>); the repository listing of project \<open>B\<close> fails, like every
  other request.  In \<open>web\<close> the content of \<open>Dockerfile\<close> cannot be fetched,
  \<open>Dockerfile.dev\<close> is empty and \<open>build/Dockerfile.prod\<close> has one \<open>FROM\<close> line.
\<close>

definition partial_server :: env where
  "partial_server =
     \<lparr>get_json_dicts = (\<lambda>url params.
          if url = ''https://bitbucket.example.com/rest/api/1.0/projects/A/repos''
          then Inr \<lparr>page_values = Some [[''slug'' \<mapsto> ''web''], [''slug'' \<mapsto> ''api'']],
                    isLastPage = Some True, nextPageStart = None\<rparr>
          else if url = ''https://bitbucket.example.com/rest/api/1.0/projects/C/repos''
          then Inr \<lparr>page_values = Some [[''slug'' \<mapsto> ''job'']],
                    isLastPage = Some True, nextPageStart = None\<rparr>
          else Inl (RequestException ''500'')),
      get_json_paths = (\<lambda>url params.
          if url = ''https://bitbucket.example.com/rest/api/1.0/projects/A/repos/web/files''
          then Inr \<lparr>page_values =
                      Some [''README.md'', ''Dockerfile'', ''Dockerfile.dev'',
                            ''build/Dockerfile.prod''],
                    isLastPage = Some True, nextPageStart = None\<rparr>
          else if url = ''https://bitbucket.example.com/rest/api/1.0/projects/A/repos/api/files''
          then Inr \<lparr>page_values = Some [''Dockerfile''],
                    isLastPage = Some True, nextPageStart = None\<rparr>
          else if url = ''https://bitbucket.example.com/rest/api/1.0/projects/C/repos/job/files''
          then Inr \<lparr>page_values = Some [''Dockerfile''],
                    isLastPage = Some True, nextPageStart = None\<rparr>
          else Inl (RequestException ''500'')),
      get_text = (\<lambda>url.
          if url = ''https://bitbucket.example.com/rest/api/1.0/projects/A/repos/web/raw/Dockerfile.dev''
          then Inr []
          else if url = ''https://bitbucket.example.com/rest/api/1.0/projects/A/repos/web/raw/build/Dockerfile.prod''
          then Inr ''FROM nginx:1.25''
          else if url = ''https://bitbucket.example.com/rest/api/1.0/projects/A/repos/api/raw/Dockerfile''
          then Inr ''FROM python:3.12''
          else if url = ''https://bitbucket.example.com/rest/api/1.0/projects/C/repos/job/raw/Dockerfile''
          then Inr ''FROM alpine:3.19''
          else Inl (RequestException ''500'')),
      list_of_set = sorted_list_of_set\<rparr>"

section \<open>Properties of the walk and of the listing loops\<close>

lemma py_split_no_sep: "sep \<notin> set s \<Longrightarrow> py_split sep s = [s]"
  by (induction s) auto

lemma scan_files_base_url: "base_url (scan_files env pk slug paths self) = base_url self"
  by (induction paths arbitrary: self) (simp_all add: Let_def)

lemma scan_files_mono: "base_images self \<subseteq> base_images (scan_files env pk slug paths self)"
proof (induction paths arbitrary: self)
  case Nil
  show ?case by simp
next
  case (Cons p paths)
  show ?case
  proof (cases "get_file_content env self pk slug p = []")
    case True
    then show ?thesis using Cons [of self] by simp
  next
    case False
    then show ?thesis
      using Cons [of "self\<lparr>base_images := base_images self \<union>
          extract_base_images self (get_file_content env self pk slug p)\<rparr>"]
      by (simp add: Let_def)
  qed
qed

lemma scan_repos_base_url: "base_url (snd (scan_repos env pk repos self)) = base_url self"
  by (induction repos arbitrary: self)
     (simp_all add: Let_def scan_files_base_url split: option.splits)

lemma scan_repos_mono: "base_images self \<subseteq> base_images (snd (scan_repos env pk repos self))"
proof (induction repos arbitrary: self)
  case Nil
  show ?case by simp
next
  case (Cons r repos)
  show ?case
    using Cons [of self] Cons [of "scan_files env pk (the (r ''slug''))
        (search_dockerfiles env self pk (the (r ''slug''))) self"]
      scan_files_mono [of self env pk "the (r ''slug'')"
        "search_dockerfiles env self pk (the (r ''slug''))"]
    by (auto simp add: Let_def split: option.splits)
qed

lemma scan_projects_Cons_cases:
  assumes "scan_projects env (p # ps) self = Some (e, self')"
  obtains "p ''key'' = None" and "self' = self"
  | k repos er where "p ''key'' = Some k" and "get_repositories env self k = Some repos"
      and "scan_repos env k repos self = (Some er, self')"
  | k repos s1 where "p ''key'' = Some k" and "get_repositories env self k = Some repos"
      and "scan_repos env k repos self = (None, s1)"
      and "scan_projects env ps s1 = Some (e, self')"
  using assms by (auto split: option.splits prod.splits)

lemma scan_projects_base_url:
  "scan_projects env projects self = Some (e, self') \<Longrightarrow> base_url self' = base_url self"
proof (induction projects arbitrary: self)
  case Nil
  then show ?case by simp
next
  case (Cons p projects)
  from Cons.prems show ?case
  proof (cases rule: scan_projects_Cons_cases)
    case 1
    then show ?thesis by simp
  next
    case (2 k repos er)
    then show ?thesis using scan_repos_base_url [of env k repos self] by simp
  next
    case (3 k repos s1)
    then show ?thesis
      using scan_repos_base_url [of env k repos self] Cons.IH [of s1] by simp
  qed
qed

lemma scan_projects_mono:
  "scan_projects env projects self = Some (e, self') \<Longrightarrow> base_images self \<subseteq> base_images self'"
proof (induction projects arbitrary: self)
  case Nil
  then show ?case by simp
next
  case (Cons p projects)
  from Cons.prems show ?case
  proof (cases rule: scan_projects_Cons_cases)
    case 1
    then show ?thesis by simp
  next
    case (2 k repos er)
    then show ?thesis using scan_repos_mono [of self env k repos] by simp
  next
    case (3 k repos s1)
    then show ?thesis
      using scan_repos_mono [of self env k repos] Cons.IH [of s1] by auto
  qed
qed

lemma repos_url_nonempty: "repos_url self k \<noteq> []"
  by (simp add: repos_url_def)

lemma get_repositories_loop_stuck:
  assumes "get_repositories_loop e s k u a = Some r"
  shows "\<not> (u = repos_url s k \<and>
   (\<exists>data. get_json_dicts e u [(''limit'', 100)] = Inr data \<and> isLastPage data = Some False))"
proof (rule get_repositories_loop.raw_induct
    [where P = "\<lambda>e s k u a r. \<not> (u = repos_url s k \<and>
       (\<exists>data. get_json_dicts e u [(''limit'', 100)] = Inr data \<and> isLastPage data = Some False))",
     OF _ assms])
  fix f e s k u a r
  assume IH: "\<And>e s k u a r. f e s k u a = Some r \<Longrightarrow> \<not> (u = repos_url s k \<and>
       (\<exists>data. get_json_dicts e u [(''limit'', 100)] = Inr data \<and> isLastPage data = Some False))"
   and step: "(if u = [] then Some a
      else
        (case get_json_dicts e u [(''limit'', 100)] of
           Inl x \<Rightarrow> Some a
         | Inr data \<Rightarrow>
             if dict_get (isLastPage data) True
             then Some (a @ dict_get (page_values data) [])
             else f e s k (repos_url s k) (a @ dict_get (page_values data) []))) = Some r"
  show "\<not> (u = repos_url s k \<and>
       (\<exists>data. get_json_dicts e u [(''limit'', 100)] = Inr data \<and> isLastPage data = Some False))"
  proof
    assume H: "u = repos_url s k \<and>
       (\<exists>data. get_json_dicts e u [(''limit'', 100)] = Inr data \<and> isLastPage data = Some False)"
    then obtain data where d: "get_json_dicts e u [(''limit'', 100)] = Inr data"
      "isLastPage data = Some False"
      by blast
    from H have u: "u = repos_url s k" by simp
    have ne: "u \<noteq> []" using u by (simp add: repos_url_nonempty)
    from step ne d have "f e s k (repos_url s k) (a @ dict_get (page_values data) []) = Some r"
      by (simp add: dict_get_def)
    from IH[OF this] d u show False by blast
  qed
qed

lemma get_repositories_not_last_diverges:
  assumes "get_json_dicts env (repos_url self k) [(''limit'', 100)] = Inr data"
    and "isLastPage data = Some False"
  shows "get_repositories env self k = None"
proof (cases "get_repositories env self k")
  case None
  then show ?thesis .
next
  case (Some r)
  then have "get_repositories_loop env self k (repos_url self k) [] = Some r"
    by (simp add: get_repositories_def)
  from get_repositories_loop_stuck [OF this] assms show ?thesis by blast
qed

lemma get_repositories_fails:
  "get_json_dicts env (repos_url self k) [(''limit'', 100)] = Inl e \<Longrightarrow>
   get_repositories env self k = Some []"
  unfolding get_repositories_def
  by (subst get_repositories_loop.simps) (simp add: repos_url_nonempty)

lemma get_repositories_loop_fails:
  "url \<noteq> [] \<Longrightarrow> get_json_dicts env url [(''limit'', 100)] = Inl e \<Longrightarrow>
   get_repositories_loop env self k url acc = Some acc"
  by (subst get_repositories_loop.simps) simp

lemma get_projects_loop_fails:
  "url \<noteq> [] \<Longrightarrow> get_json_dicts env url [] = Inl e \<Longrightarrow>
   get_projects_loop env self url acc = Some acc"
  by (subst get_projects_loop.simps) simp

lemma get_projects_loop_last:
  "url \<noteq> [] \<Longrightarrow> get_json_dicts env url [] = Inr data \<Longrightarrow> dict_get (isLastPage data) True \<Longrightarrow>
   get_projects_loop env self url acc = Some (acc @ dict_get (page_values data) [])"
  by (subst get_projects_loop.simps) simp

lemma get_projects_loop_next:
  "url \<noteq> [] \<Longrightarrow> get_json_dicts env url [] = Inr data \<Longrightarrow> \<not> dict_get (isLastPage data) True \<Longrightarrow>
   get_projects_loop env self url acc =
     get_projects_loop env self (base_url self @ dict_get (nextPageStart data) [])
       (acc @ dict_get (page_values data) [])"
  by (subst get_projects_loop.simps) simp

lemma get_projects_three_pages:
  assumes "get_json_dicts env (projects_url self) [] =
             Inr \<lparr>page_values = Some v1, isLastPage = Some False, nextPageStart = Some n1\<rparr>"
    and "get_json_dicts env (base_url self @ n1) [] =
             Inr \<lparr>page_values = Some v2, isLastPage = Some False, nextPageStart = Some n2\<rparr>"
    and "get_json_dicts env (base_url self @ n2) [] =
             Inr \<lparr>page_values = Some v3, isLastPage = Some True, nextPageStart = n3\<rparr>"
    and "base_url self @ n1 \<noteq> []" and "base_url self @ n2 \<noteq> []"
  shows "get_projects env self None = Some (v1 @ v2 @ v3)"
proof -
  have u: "projects_url self \<noteq> []" by (simp add: projects_url_def)
  have "get_projects env self None = get_projects_loop env self (projects_url self) []"
    by (simp add: get_projects_def)
  also have "\<dots> = get_projects_loop env self (base_url self @ n1) v1"
    using get_projects_loop_next [OF u assms(1), of self "[]"] by (simp add: dict_get_def)
  also have "\<dots> = get_projects_loop env self (base_url self @ n2) (v1 @ v2)"
    using get_projects_loop_next [OF assms(4) assms(2), of self v1] by (simp add: dict_get_def)
  also have "\<dots> = Some ((v1 @ v2) @ v3)"
    using get_projects_loop_last [OF assms(5) assms(3), of self "v1 @ v2"]
    by (simp add: dict_get_def)
  finally show ?thesis by simp
qed

text \<open>
  The listing and fetching methods read only \<open>base_url\<close> of the object, which the
  walk never changes.
\<close>

lemma get_file_content_cong:
  "base_url (s'::scanner) = base_url (s::scanner) \<Longrightarrow>
   get_file_content env s' pk slug p = get_file_content env s pk slug p"
  by (simp add: get_file_content_def raw_url_def)

lemma search_pass_cong:
  "base_url (s'::scanner) = base_url (s::scanner) \<Longrightarrow>
   search_pass env s' pk slug = search_pass env s pk slug"
  by (intro ext) (simp add: search_pass_def files_url_def)

lemma search_dockerfiles_cong:
  assumes "base_url (s'::scanner) = base_url (s::scanner)"
  shows "search_dockerfiles env s' pk slug = search_dockerfiles env s pk slug"
  unfolding search_dockerfiles_def search_pass_cong [OF assms] ..

lemma get_repositories_loop_cong_Some:
  assumes "get_repositories_loop e s k u a = Some r"
  shows "\<forall>s'::scanner. base_url s' = base_url s \<longrightarrow> get_repositories_loop e s' k u a = Some r"
proof (rule get_repositories_loop.raw_induct
    [where P = "\<lambda>e s k u a r. \<forall>s'::scanner. base_url s' = base_url s \<longrightarrow>
                   get_repositories_loop e s' k u a = Some r",
     OF _ assms])
  fix f e s k u a r
  assume IH: "\<And>e s k u a r. f e s k u a = Some r \<Longrightarrow>
       \<forall>s'::scanner. base_url s' = base_url s \<longrightarrow> get_repositories_loop e s' k u a = Some r"
   and step: "(if u = [] then Some a
      else
        (case get_json_dicts e u [(''limit'', 100)] of
           Inl x \<Rightarrow> Some a
         | Inr data \<Rightarrow>
             if dict_get (isLastPage data) True
             then Some (a @ dict_get (page_values data) [])
             else f e s k (repos_url s k) (a @ dict_get (page_values data) []))) = Some r"
  show "\<forall>s'::scanner. base_url s' = base_url s \<longrightarrow> get_repositories_loop e s' k u a = Some r"
  proof (intro allI impI)
    fix s' :: scanner
    assume b: "base_url s' = base_url s"
    have ru: "repos_url s' k = repos_url s k"
      using b by (simp add: repos_url_def)
    show "get_repositories_loop e s' k u a = Some r"
    proof (cases "u = []")
      case True
      then show ?thesis using step by (subst get_repositories_loop.simps) simp
    next
      case False
      show ?thesis
      proof (cases "get_json_dicts e u [(''limit'', 100)]")
        case (Inl x)
        then show ?thesis using step False by (subst get_repositories_loop.simps) simp
      next
        case (Inr data)
        show ?thesis
        proof (cases "dict_get (isLastPage data) True")
          case True
          then show ?thesis
            using step False Inr by (subst get_repositories_loop.simps) simp
        next
          case last: False
          from step False Inr last
          have "f e s k (repos_url s k) (a @ dict_get (page_values data) []) = Some r"
            by simp
          from IH [OF this] b
          have "get_repositories_loop e s' k (repos_url s k) (a @ dict_get (page_values data) [])
                = Some r"
            by blast
          then show ?thesis
            using False Inr last ru by (subst get_repositories_loop.simps) simp
        qed
      qed
    qed
  qed
qed

lemma get_repositories_loop_cong:
  assumes "base_url (s'::scanner) = base_url (s::scanner)"
  shows "get_repositories_loop e s' k u a = get_repositories_loop e s k u a"
proof (cases "get_repositories_loop e s k u a")
  case (Some r)
  from get_repositories_loop_cong_Some [OF this] assms show ?thesis
    using Some by simp
next
  case None
  show ?thesis
  proof (cases "get_repositories_loop e s' k u a")
    case None
    then show ?thesis using \<open>get_repositories_loop e s k u a = None\<close> by simp
  next
    case (Some r)
    from get_repositories_loop_cong_Some [OF this] assms
    have "get_repositories_loop e s k u a = Some r" by simp
    then show ?thesis using None by simp
  qed
qed

lemma get_repositories_cong:
  "base_url (s'::scanner) = base_url (s::scanner) \<Longrightarrow> get_repositories env s' k = get_repositories env s k"
  using get_repositories_loop_cong [of s' s env k "repos_url s k" "[]"]
  by (simp add: get_repositories_def repos_url_def)

text \<open>
  What each level of the walk adds to the accumulator: the images of the files
  whose fetched content is not empty.
\<close>

lemma scan_files_images:
  "x \<in> base_images (scan_files env pk slug paths self) \<longleftrightarrow>
     x \<in> base_images self \<or>
     (\<exists>path\<in>set paths. get_file_content env self pk slug path \<noteq> [] \<and>
           x \<in> extract_base_images self (get_file_content env self pk slug path))"
proof (induction paths arbitrary: self)
  case Nil
  show ?case by simp
next
  case (Cons p paths)
  let ?s1 = "self\<lparr>base_images := base_images self \<union>
          extract_base_images self (get_file_content env self pk slug p)\<rparr>"
  have c: "get_file_content env ?s1 pk slug q = get_file_content env self pk slug q" for q
    by (rule get_file_content_cong) simp
  have x: "extract_base_images ?s1 t = extract_base_images self t" for t
    by (simp add: extract_base_images_def)
  show ?case
  proof (cases "get_file_content env self pk slug p = []")
    case True
    then have "scan_files env pk slug (p # paths) self = scan_files env pk slug paths self"
      by simp
    then show ?thesis using Cons [of self] True by simp
  next
    case False
    then have "scan_files env pk slug (p # paths) self = scan_files env pk slug paths ?s1"
      by (simp add: Let_def)
    then show ?thesis
      using Cons [of ?s1] False unfolding c x by (simp del: scan_files.simps)
  qed
qed

lemma scan_repos_images:
  assumes "scan_repos env pk repos self = (None, self')"
  shows "x \<in> base_images self' \<longleftrightarrow>
     x \<in> base_images self \<or>
     (\<exists>r\<in>set repos. \<exists>slug. r ''slug'' = Some slug \<and>
        (\<exists>path\<in>set (search_dockerfiles env self pk slug).
           get_file_content env self pk slug path \<noteq> [] \<and>
           x \<in> extract_base_images self (get_file_content env self pk slug path)))"
  using assms
proof (induction repos arbitrary: self)
  case Nil
  then show ?case by simp
next
  case (Cons r repos)
  from Cons.prems obtain slug where sl: "r ''slug'' = Some slug"
    by (cases "r ''slug''") simp_all
  let ?ds = "search_dockerfiles env self pk slug"
  let ?s1 = "scan_files env pk slug ?ds self"
  have step: "scan_repos env pk (r # repos) self = scan_repos env pk repos ?s1"
    using sl by (cases "?ds = []") (simp_all add: Let_def)
  have b: "base_url ?s1 = base_url self"
    by (rule scan_files_base_url)
  have rest: "scan_repos env pk repos ?s1 = (None, self')"
    using Cons.prems step by simp
  have x1: "extract_base_images ?s1 t = extract_base_images self t" for t
    by (simp add: extract_base_images_def)
  have IH: "x \<in> base_images self' \<longleftrightarrow>
     x \<in> base_images ?s1 \<or>
     (\<exists>r\<in>set repos. \<exists>slug. r ''slug'' = Some slug \<and>
        (\<exists>path\<in>set (search_dockerfiles env self pk slug).
           get_file_content env self pk slug path \<noteq> [] \<and>
           x \<in> extract_base_images self (get_file_content env self pk slug path)))"
    using Cons.IH [OF rest]
    unfolding search_dockerfiles_cong [OF b] get_file_content_cong [OF b] x1 .
  show ?case
    using IH sl unfolding scan_files_images [of x env pk slug ?ds self]
    by auto
qed

lemma scan_projects_images:
  assumes "scan_projects env projects self = Some (None, self')"
  shows "x \<in> base_images self' \<longleftrightarrow>
     x \<in> base_images self \<or>
     (\<exists>p\<in>set projects. \<exists>k repos. p ''key'' = Some k \<and>
        get_repositories env self k = Some repos \<and>
        (\<exists>r\<in>set repos. \<exists>slug. r ''slug'' = Some slug \<and>
           (\<exists>path\<in>set (search_dockerfiles env self k slug).
              get_file_content env self k slug path \<noteq> [] \<and>
              x \<in> extract_base_images self (get_file_content env self k slug path))))"
  using assms
proof (induction projects arbitrary: self)
  case Nil
  then show ?case by simp
next
  case (Cons p projects)
  from Cons.prems obtain k repos s1 where
    key: "p ''key'' = Some k" and repos: "get_repositories env self k = Some repos"
    and sr: "scan_repos env k repos self = (None, s1)"
    and rest: "scan_projects env projects s1 = Some (None, self')"
    by (auto split: option.splits prod.splits)
  have b: "base_url s1 = base_url self"
    using scan_repos_base_url [of env k repos self] sr by simp
  have x1: "extract_base_images s1 t = extract_base_images self t" for t
    by (simp add: extract_base_images_def)
  have IH: "x \<in> base_images self' \<longleftrightarrow>
     x \<in> base_images s1 \<or>
     (\<exists>p\<in>set projects. \<exists>k repos. p ''key'' = Some k \<and>
        get_repositories env self k = Some repos \<and>
        (\<exists>r\<in>set repos. \<exists>slug. r ''slug'' = Some slug \<and>
           (\<exists>path\<in>set (search_dockerfiles env self k slug).
              get_file_content env self k slug path \<noteq> [] \<and>
              x \<in> extract_base_images self (get_file_content env self k slug path))))"
    using Cons.IH [OF rest]
    unfolding search_dockerfiles_cong [OF b] get_file_content_cong [OF b]
      get_repositories_cong [OF b] x1 .
  show ?case
    using IH key repos unfolding scan_repos_images [OF sr, of x]
    by auto
qed

text \<open>
  The walk returns when every listing does and every item has its field; a
  project whose repository listing fails is passed over.
\<close>

lemma scan_repos_returns:
  "\<forall>r\<in>set repos. r ''slug'' \<noteq> None \<Longrightarrow> fst (scan_repos env pk repos self) = None"
  by (induction repos arbitrary: self) (auto simp add: Let_def split: option.splits)

lemma scan_projects_returns:
  assumes "\<forall>p\<in>set projects. \<exists>k repos. p ''key'' = Some k \<and>
             get_repositories env self k = Some repos \<and> (\<forall>r\<in>set repos. r ''slug'' \<noteq> None)"
  shows "\<exists>self'. scan_projects env projects self = Some (None, self')"
  using assms
proof (induction projects arbitrary: self)
  case Nil
  show ?case by simp
next
  case (Cons p projects)
  from Cons.prems obtain k repos where
    key: "p ''key'' = Some k" and repos: "get_repositories env self k = Some repos"
    and slugs: "\<forall>r\<in>set repos. r ''slug'' \<noteq> None"
    by auto
  obtain s1 where sr: "scan_repos env k repos self = (None, s1)"
    using scan_repos_returns [OF slugs, of env k self]
    by (cases "scan_repos env k repos self") simp
  have b: "base_url s1 = base_url self"
    using scan_repos_base_url [of env k repos self] sr by simp
  have "\<forall>p\<in>set projects. \<exists>k repos. p ''key'' = Some k \<and>
             get_repositories env s1 k = Some repos \<and> (\<forall>r\<in>set repos. r ''slug'' \<noteq> None)"
    using Cons.prems unfolding get_repositories_cong [OF b] by simp
  from Cons.IH [OF this] obtain self' where "scan_projects env projects s1 = Some (None, self')"
    by blast
  then have "scan_projects env (p # projects) self = Some (None, self')"
    using key repos sr by simp
  then show ?case by blast
qed

lemma scan_projects_append_cases:
  "scan_projects env (ps @ qs) self =
     (case scan_projects env ps self of
        None \<Rightarrow> None
      | Some (Some e, s1) \<Rightarrow> Some (Some e, s1)
      | Some (None, s1) \<Rightarrow> scan_projects env qs s1)"
  by (induction ps arbitrary: self) (auto split: option.splits prod.splits)

lemma scan_projects_skip:
  assumes "get_json_dicts env (repos_url self p2) [(''limit'', 100)] = Inl e"
  shows "scan_projects env (ps @ [''key'' \<mapsto> p2] # qs) self = scan_projects env (ps @ qs) self"
proof -
  have one: "scan_projects env ([''key'' \<mapsto> p2] # qs) s1 = scan_projects env qs s1"
    if sp: "scan_projects env ps self = Some (None, s1)" for s1
  proof -
    have "repos_url s1 p2 = repos_url self p2"
      using scan_projects_base_url [OF sp] by (simp add: repos_url_def)
    then have "get_json_dicts env (repos_url s1 p2) [(''limit'', 100)] = Inl e"
      using assms by simp
    from get_repositories_fails [OF this] show ?thesis by simp
  qed
  show ?thesis
    unfolding scan_projects_append_cases [of env ps]
    using one by (auto split: option.splits prod.splits)
qed

lemma Ball_key_dicts:
  "(\<forall>p\<in>set (map (\<lambda>key. [''key'' \<mapsto> key]) keys). \<exists>k repos. p ''key'' = Some k \<and> Q k repos)
   \<longleftrightarrow> (\<forall>k\<in>set keys. \<exists>repos. Q k repos)"
  by simp

lemma Bex_key_dicts:
  "(\<exists>p\<in>set (map (\<lambda>key. [''key'' \<mapsto> key]) keys). \<exists>k repos. p ''key'' = Some k \<and> Q k repos)
   \<longleftrightarrow> (\<exists>k\<in>set keys. \<exists>repos. Q k repos)"
  by simp

lemma py_split_nonempty: "py_split sep s \<noteq> []"
  by (induction s) (auto split: list.splits)

lemma length_py_split:
  "length (py_split sep s) = Suc (length (filter (\<lambda>c. c = sep) s))"
proof (induction s)
  case Nil
  show ?case by simp
next
  case (Cons c cs)
  obtain p ps where s: "py_split sep cs = p # ps"
    using py_split_nonempty [of sep cs] by (cases "py_split sep cs") auto
  show ?case using Cons s by simp
qed

lemma py_split_single: "length (py_split sep s) = 1 \<longleftrightarrow> sep \<notin> set s"
  by (auto simp add: length_py_split filter_empty_conv)

lemma takeWhile_snoc_stop: "\<not> P y \<Longrightarrow> takeWhile P (xs @ [y]) = takeWhile P xs"
  by (induction xs) auto

lemma last_py_split:
  "last (py_split sep s) = rev (takeWhile (\<lambda>c. c \<noteq> sep) (rev s))"
proof (induction s)
  case Nil
  show ?case by simp
next
  case (Cons c cs)
  obtain p ps where s: "py_split sep cs = p # ps"
    using py_split_nonempty [of sep cs] by (cases "py_split sep cs") auto
  show ?case
  proof (cases "c = sep")
    case True
    have "last (py_split sep (c # cs)) = last (py_split sep cs)"
      using True s by simp
    moreover have "takeWhile (\<lambda>c. c \<noteq> sep) (rev cs @ [c]) = takeWhile (\<lambda>c. c \<noteq> sep) (rev cs)"
      using True by (simp add: takeWhile_snoc_stop)
    ultimately show ?thesis using Cons by simp
  next
    case False
    have split: "py_split sep (c # cs) = (c # p) # ps" using False s by simp
    show ?thesis
    proof (cases "sep \<in> set cs")
      case True
      then have "ps \<noteq> []" using py_split_single [of sep cs] s by auto
      then have "last (py_split sep (c # cs)) = last (py_split sep cs)"
        using split s by simp
      moreover have "takeWhile (\<lambda>c. c \<noteq> sep) (rev cs @ [c]) = takeWhile (\<lambda>c. c \<noteq> sep) (rev cs)"
        using True by (simp add: takeWhile_append1)
      ultimately show ?thesis using Cons by simp
    next
      case nosep: False
      then have a: "py_split sep (c # cs) = [c # cs]"
        using False py_split_no_sep [of sep "c # cs"] by simp
      have b: "takeWhile (\<lambda>c. c \<noteq> sep) (rev (c # cs)) = rev (c # cs)"
        using nosep False by (auto simp add: takeWhile_eq_all_conv)
      show ?thesis unfolding a b by simp
    qed
  qed
qed

section \<open>Properties of the extractor\<close>

text \<open>
  The step of the loop on a line that is not a comment and captures a token, for
  every token: it is added exactly when it contains \<open>:\<close>, \<open>/\<close>, \<open>@\<close> or an
  uppercase letter.  The test for \<open>$\<close> in the first condition never changes the
  outcome: a token with \<open>:\<close> that fails it is added by the last branch.
\<close>

lemma token_kept_iff:
  assumes "\<not> startswith (py_strip line) ''#''"
    and "re_match_group1 from_pattern line = Some img"
  shows "extract_lines (line # rest) images =
           extract_lines rest
             (if CHR '':'' \<in> set img \<or> CHR ''/'' \<in> set img \<or> CHR ''@'' \<in> set img
                   \<or> list_ex py_isupper img
              then insert img images else images)"
  using assms by auto

text \<open>
  Claim C2 fails on the code.  The token \<open>$BASE_IMAGE\<close> starts with \<open>$\<close> and
  contains none of \<open>:\<close>, \<open>/\<close>, \<open>@\<close>, and the text \<open>FROM $BASE_IMAGE\<close> gives the
  set of \<open>$BASE_IMAGE\<close> all the same: the first condition tests for \<open>$\<close>, but
  the token then reaches the last branch, which adds it for its uppercase letters.
\<close>

theorem dollar_uppercase_token_added:
  "startswith ''$BASE_IMAGE'' ''$'' \<and>
   re_match_group1 from_pattern ''FROM $BASE_IMAGE'' = Some ''$BASE_IMAGE'' \<and>
   CHR '':'' \<notin> set ''$BASE_IMAGE'' \<and> CHR ''/'' \<notin> set ''$BASE_IMAGE'' \<and>
   CHR ''@'' \<notin> set ''$BASE_IMAGE'' \<and>
   extract_base_images (init ''https://bitbucket.example.com'') ''FROM $BASE_IMAGE''
     = {''$BASE_IMAGE''}"
  by code_simp

text \<open>
  Claim C3.  The three lines \<open>FROM node:18 AS build\<close>, \<open>FROM build AS test\<close>,
  \<open>FROM node:18-slim\<close> give exactly the set of \<open>node:18\<close> and \<open>node:18-slim\<close>.
\<close>

theorem multi_stage_scenario:
  "extract_base_images self
     (''FROM node:18 AS build'' @ [CHR 0x0A] @ ''FROM build AS test'' @ [CHR 0x0A]
        @ ''FROM node:18-slim'')
   = {''node:18'', ''node:18-slim''}"
  by code_simp



text \<open>
  Claim C6.  The line \<open>FROM --platform=linux/amd64 golang:1.21 AS builder\<close> gives
  exactly the set of \<open>golang:1.21\<close>: neither the flag nor the alias is captured.
\<close>

theorem platform_flag_scenario:
  "extract_base_images self ''FROM --platform=linux/amd64 golang:1.21 AS builder''
   = {''golang:1.21''}"
  by code_simp

text \<open>
  Claim C9.  The result of \<open>extract_base_images\<close> is a function of the text alone:
  whatever the scanner object holds at the first and at the second call, the two
  calls on the same text return the same set.
\<close>

theorem extract_base_images_no_hidden_state:
  "extract_base_images self text = extract_base_images self' text"
  by (simp add: extract_base_images_def)

section \<open>Properties of the listing methods\<close>

lemma sc0_url: "base_url (init ''https://bitbucket.example.com'') = ''https://bitbucket.example.com''"
  by (simp add: init_def rstrip_slash_def)

text \<open>
  Claim C1 fails on \<open>get_repositories\<close>.  After a page that is not the last the
  loop assigns to \<open>url\<close> the URL it started with and sends the same parameters,
  so the server answers with the first page again and the call never returns:
  on the three-page server the listing of project \<open>P\<close> has no result.
  (\<open>get_projects\<close> does take the next URL from the response:
  \<open>get_projects_three_pages\<close> above.)
\<close>

theorem get_repositories_three_pages_diverges:
  "get_repositories three_page_repos (init ''https://bitbucket.example.com'') ''P'' = None"
proof (rule get_repositories_not_last_diverges)
  show "get_json_dicts three_page_repos
          (repos_url (init ''https://bitbucket.example.com'') ''P'') [(''limit'', 100)]
        = Inr \<lparr>page_values = Some [[''slug'' \<mapsto> ''r1'']],
                isLastPage = Some False, nextPageStart = Some ''1''\<rparr>"
    by (simp add: three_page_repos_def repos_url_def sc0_url)
  show "isLastPage \<lparr>page_values = Some [[''slug'' \<mapsto> ''r1'']],
                isLastPage = Some False, nextPageStart = Some ''1''\<rparr> = Some False"
    by simp
qed

lemma two_page_files_first:
  "get_json_paths two_page_files
     (files_url (init ''https://bitbucket.example.com'') ''P'' ''r'') [(''limit'', 1000)]
   = Inr \<lparr>page_values = Some [''README.md''], isLastPage = Some False,
            nextPageStart = Some ''1''\<rparr>"
  by (simp add: two_page_files_def files_url_def sc0_url)

lemma two_page_files_second:
  "get_json_paths two_page_files
     (files_url (init ''https://bitbucket.example.com'') ''P'' ''r'')
     [(''limit'', 1000), (''start'', 1)]
   = Inr \<lparr>page_values = Some [''Dockerfile''], isLastPage = Some True, nextPageStart = None\<rparr>"
  by (simp add: two_page_files_def files_url_def sc0_url)

lemma two_page_files_order: "list_of_set two_page_files {} = []"
  by (simp add: two_page_files_def)

lemma two_page_files_result:
  "search_dockerfiles two_page_files (init ''https://bitbucket.example.com'') ''P'' ''r'' = []"
proof -
  have "search_pass two_page_files (init ''https://bitbucket.example.com'') ''P'' ''r'' ds pat = ds"
    for ds pat
    unfolding search_pass_def two_page_files_first
    by (simp add: dict_get_def startswith_def)
  then show ?thesis
    by (simp add: search_dockerfiles_def two_page_files_order)
qed

text \<open>
  Claim C5 fails: \<open>search_dockerfiles\<close> sends one request per search pattern and
  never reads \<open>isLastPage\<close>.  On the server whose file listing has two pages the
  result is empty, although the second page lists a Dockerfile.
\<close>

theorem search_dockerfiles_first_page_only:
  "search_dockerfiles two_page_files (init ''https://bitbucket.example.com'') ''P'' ''r'' = [] \<and>
   get_json_paths two_page_files
     (files_url (init ''https://bitbucket.example.com'') ''P'' ''r'')
     [(''limit'', 1000), (''start'', 1)]
   = Inr \<lparr>page_values = Some [''Dockerfile''], isLastPage = Some True, nextPageStart = None\<rparr>"
proof -
  have "search_pass two_page_files (init ''https://bitbucket.example.com'') ''P'' ''r'' ds pat = ds"
    for ds pat
    unfolding search_pass_def two_page_files_first
    by (simp add: dict_get_def startswith_def)
  then have "search_dockerfiles two_page_files (init ''https://bitbucket.example.com'') ''P'' ''r'' = []"
    by (simp add: search_dockerfiles_def two_page_files_order)
  then show ?thesis using two_page_files_second by simp
qed

lemma search_pass_ok:
  "get_json_paths env (files_url self pk slug) [(''limit'', 1000)] = Inr data \<Longrightarrow>
   set (foldl (search_pass env self pk slug) [] [''Dockerfile'', ''dockerfile'']) =
     {p \<in> set (dict_get (page_values data) []).
        let seg = rev (takeWhile (\<lambda>c. c \<noteq> CHR ''/'') (rev p))
        in seg = ''Dockerfile'' \<or> seg = ''dockerfile'' \<or> startswith seg ''Dockerfile.''
             \<or> startswith seg ''dockerfile.''}"
  by (auto simp add: search_pass_def last_py_split Let_def)

text \<open>
  Within the one response that \<open>search_dockerfiles\<close> reads, and whatever order the
  interpreter enumerates a set in, the method returns a list without duplicates
  whose elements are exactly the paths of that response whose final segment (the
  text after the last \<open>/\<close>) is \<open>Dockerfile\<close> or \<open>dockerfile\<close> or starts with
  \<open>Dockerfile.\<close> or \<open>dockerfile.\<close>.  Both search passes see every path of the
  response, so each kept path is seen twice.  On the example server
  \<open>docker/Dockerfile.prod\<close> and \<open>ci/dockerfile.ci\<close> are kept and \<open>DockerfileFoo\<close>
  is not.
\<close>

lemma search_dockerfiles_one_response:
  assumes "\<And>S. finite S \<Longrightarrow> set (list_of_set env S) = S \<and> distinct (list_of_set env S)"
    and "get_json_paths env (files_url self pk slug) [(''limit'', 1000)] = Inr data"
  shows "distinct (search_dockerfiles env self pk slug) \<and>
         set (search_dockerfiles env self pk slug) =
           {p \<in> set (dict_get (page_values data) []).
              let seg = rev (takeWhile (\<lambda>c. c \<noteq> CHR ''/'') (rev p))
              in seg = ''Dockerfile'' \<or> seg = ''dockerfile'' \<or> startswith seg ''Dockerfile.''
                   \<or> startswith seg ''dockerfile.''}"
proof -
  have fin: "finite (set (foldl (search_pass env self pk slug) [] [''Dockerfile'', ''dockerfile'']))"
    by (rule finite_set)
  show ?thesis
    unfolding search_dockerfiles_def
    using assms(1) [OF fin] search_pass_ok [OF assms(2)] by simp
qed

lemma demo_files:
  "get_json_paths demo_server
     (files_url (init ''https://bitbucket.example.com'') ''P1'' ''app'') [(''limit'', 1000)]
   = Inr \<lparr>page_values =
             Some [''Dockerfile'', ''src/main.py'', ''docker/Dockerfile.prod'',
                   ''ci/dockerfile.ci'', ''DockerfileFoo''],
           isLastPage = Some True, nextPageStart = None\<rparr>"
  by (simp add: demo_server_def files_url_def sc0_url)

lemma demo_order:
  "finite S \<Longrightarrow> set (list_of_set demo_server S) = S \<and> distinct (list_of_set demo_server S)"
  by (simp add: demo_server_def)

lemma search_dockerfiles_one_response_demo:
  "distinct (search_dockerfiles demo_server (init ''https://bitbucket.example.com'') ''P1'' ''app'') \<and>
   set (search_dockerfiles demo_server (init ''https://bitbucket.example.com'') ''P1'' ''app'') =
     {''Dockerfile'', ''docker/Dockerfile.prod'', ''ci/dockerfile.ci''}"
proof -
  let ?xs = "[''Dockerfile'', ''src/main.py'', ''docker/Dockerfile.prod'',
              ''ci/dockerfile.ci'', ''DockerfileFoo'']"
  let ?P = "\<lambda>p. let seg = rev (takeWhile (\<lambda>c. c \<noteq> CHR ''/'') (rev p))
              in seg = ''Dockerfile'' \<or> seg = ''dockerfile'' \<or> startswith seg ''Dockerfile.''
                   \<or> startswith seg ''dockerfile.''"
  have f: "filter ?P ?xs = [''Dockerfile'', ''docker/Dockerfile.prod'', ''ci/dockerfile.ci'']"
    by code_simp
  have c: "{p \<in> set ?xs. ?P p} = set (filter ?P ?xs)"
    by (simp only: set_filter)
  have d: "dict_get (page_values \<lparr>page_values = Some ?xs, isLastPage = Some True,
                                 nextPageStart = None\<rparr>) [] = ?xs"
    by (simp add: dict_get_def)
  have s: "set [''Dockerfile'', ''docker/Dockerfile.prod'', ''ci/dockerfile.ci'']
           = {''Dockerfile'', ''docker/Dockerfile.prod'', ''ci/dockerfile.ci''}"
    by (simp only: list.set)
  note w = search_dockerfiles_one_response [OF demo_order demo_files]
  show ?thesis using w unfolding d c f s .
qed

text \<open>
  Claim C8 fails on the code, for a path that the listing gives on a later page.
  On the server whose file listing has two pages the path \<open>Dockerfile\<close> is in the
  listing of the repository (on the second page) and its final segment is
  \<open>Dockerfile\<close>, yet it is not among the paths returned: only the first response
  of the listing is read, and a path on a later page is never filtered at all.
  For the paths of the response that is read the predicate and the absence of
  duplicates hold (\<open>search_dockerfiles_one_response\<close> above).
\<close>

theorem listed_dockerfile_not_kept:
  "get_json_paths two_page_files
     (files_url (init ''https://bitbucket.example.com'') ''P'' ''r'')
     [(''limit'', 1000), (''start'', 1)]
   = Inr \<lparr>page_values = Some [''Dockerfile''], isLastPage = Some True, nextPageStart = None\<rparr> \<and>
   last (py_split (CHR ''/'') ''Dockerfile'') = ''Dockerfile'' \<and>
   ''Dockerfile'' \<notin>
     set (search_dockerfiles two_page_files (init ''https://bitbucket.example.com'') ''P'' ''r'')"
  using two_page_files_second two_page_files_result by (simp add: py_split_no_sep)

section \<open>Properties of \<open>scan\<close>\<close>

lemma demo_search:
  "search_dockerfiles demo_server (init ''https://bitbucket.example.com'') ''P1'' ''app''
   = [''Dockerfile'', ''ci/dockerfile.ci'', ''docker/Dockerfile.prod'']"
  by code_simp

lemma demo_repos:
  "get_repositories demo_server (init ''https://bitbucket.example.com'') ''P1''
   = Some [[''slug'' \<mapsto> ''app'']]"
  unfolding get_repositories_def
  by (subst get_repositories_loop.simps)
     (simp add: demo_server_def repos_url_def sc0_url dict_get_def)

lemma demo_scan_P1:
  "scan demo_server (init ''https://bitbucket.example.com'') (Some [''P1''])
   = Some (Inr {''node:18'', ''node:18-slim''},
           \<lparr>base_url = ''https://bitbucket.example.com'',
            base_images = {''node:18'', ''node:18-slim''}\<rparr>)"
  by code_simp

lemma demo_scan_P3:
  "scan demo_server
     \<lparr>base_url = ''https://bitbucket.example.com'',
      base_images = {''node:18'', ''node:18-slim''}\<rparr> (Some [''P3''])
   = Some (Inr {''node:18'', ''node:18-slim'', ''golang:1.21''},
           \<lparr>base_url = ''https://bitbucket.example.com'',
            base_images = {''node:18'', ''node:18-slim'', ''golang:1.21''}\<rparr>)"
  by code_simp

lemma get_projects_keys:
  "keys \<noteq> [] \<Longrightarrow>
   get_projects env self (Some keys) = Some (map (\<lambda>key. [''key'' \<mapsto> key]) keys)"
  by (cases keys) (simp_all add: get_projects_def)

lemma scan_Inr:
  assumes "scan env self keys = Some (Inr images, self1)"
  obtains projects where "get_projects env self keys = Some projects"
    and "scan_projects env projects self = Some (None, self1)"
    and "images = base_images self1"
  using assms
  by (auto simp add: scan_def split: option.splits prod.splits)

text \<open>
  Claim C7.  Let the repository listing of project \<open>p2\<close> fail, and let the
  listings of the other projects, \<open>ks1\<close> before \<open>p2\<close> and \<open>ks2\<close> after it, return
  repositories that all have a slug.  Then

  \<^item> the failing listing returns what it had accumulated (\<open>acc\<close>), on whatever
    object it is called;
  \<^item> the scan of \<open>ks1\<close>, \<open>p2\<close>, \<open>ks2\<close> is the scan of \<open>ks1\<close>, \<open>ks2\<close>: it does not
    stop at \<open>p2\<close> and loses no project after it;
  \<^item> the scan returns, and the set it returns holds exactly the accumulator it
    started with and the images of every file whose fetched content is not
    empty, over every path \<open>search_dockerfiles\<close> returns, in every repository of
    every project of \<open>ks1\<close> and \<open>ks2\<close>.  A file whose content cannot be fetched
    or is empty (\<open>get_file_content\<close> is then the empty text) adds nothing, and
    no other file, repository or project of the walk is lost for it.

  On the example server the scan of \<open>A\<close>, \<open>B\<close>, \<open>C\<close> returns the images of
  \<open>build/Dockerfile.prod\<close> (read after the two files of \<open>web\<close> that give
  nothing), of the repository \<open>api\<close> after \<open>web\<close>, and of project \<open>C\<close> after the
  failing \<open>B\<close>.
\<close>

theorem partial_failure_keeps_going:
  assumes "get_json_dicts env (repos_url self p2) [(''limit'', 100)] = Inl e"
    and "ks1 @ ks2 \<noteq> []"
    and "\<forall>k\<in>set (ks1 @ ks2). \<exists>repos. get_repositories env self k = Some repos \<and>
           (\<forall>r\<in>set repos. r ''slug'' \<noteq> None)"
  shows "get_repositories_loop env s p2 (repos_url self p2) acc = Some acc \<and>
         scan env self (Some (ks1 @ [p2] @ ks2)) = scan env self (Some (ks1 @ ks2)) \<and>
         (\<exists>images self'.
            scan env self (Some (ks1 @ [p2] @ ks2)) = Some (Inr images, self') \<and>
            (\<forall>x. x \<in> images \<longleftrightarrow>
               x \<in> base_images self \<or>
               (\<exists>k\<in>set (ks1 @ ks2). \<exists>repos. get_repositories env self k = Some repos \<and>
                  (\<exists>r\<in>set repos. \<exists>slug. r ''slug'' = Some slug \<and>
                     (\<exists>path\<in>set (search_dockerfiles env self k slug).
                        get_file_content env self k slug path \<noteq> [] \<and>
                        x \<in> extract_base_images self
                              (get_file_content env self k slug path))))))"
proof -
  let ?mk = "\<lambda>key. [''key'' \<mapsto> key]"
  have loop: "get_repositories_loop env s p2 (repos_url self p2) acc = Some acc"
    using get_repositories_loop_fails [OF repos_url_nonempty assms(1)] .
  have gp2: "get_projects env self (Some (ks1 @ [p2] @ ks2))
             = Some (map ?mk ks1 @ [''key'' \<mapsto> p2] # map ?mk ks2)"
    using get_projects_keys [of "ks1 @ [p2] @ ks2" env self] by simp
  have gp: "get_projects env self (Some (ks1 @ ks2)) = Some (map ?mk (ks1 @ ks2))"
    using get_projects_keys [OF assms(2), of env self] .
  have same: "scan env self (Some (ks1 @ [p2] @ ks2)) = scan env self (Some (ks1 @ ks2))"
    by (simp only: scan_def gp gp2 map_append scan_projects_skip [OF assms(1)] option.case)
  have "\<forall>p\<in>set (map ?mk (ks1 @ ks2)). \<exists>k repos. p ''key'' = Some k \<and>
             get_repositories env self k = Some repos \<and> (\<forall>r\<in>set repos. r ''slug'' \<noteq> None)"
    using assms(3)
      Ball_key_dicts [of "ks1 @ ks2" "\<lambda>k repos. get_repositories env self k = Some repos \<and>
             (\<forall>r\<in>set repos. r ''slug'' \<noteq> None)"]
    by blast
  from scan_projects_returns [OF this] obtain self' where
    sp: "scan_projects env (map ?mk (ks1 @ ks2)) self = Some (None, self')"
    by blast
  have ret: "scan env self (Some (ks1 @ ks2)) = Some (Inr (base_images self'), self')"
    unfolding scan_def gp using sp by simp
  have char: "x \<in> base_images self' \<longleftrightarrow>
               x \<in> base_images self \<or>
               (\<exists>k\<in>set (ks1 @ ks2). \<exists>repos. get_repositories env self k = Some repos \<and>
                  (\<exists>r\<in>set repos. \<exists>slug. r ''slug'' = Some slug \<and>
                     (\<exists>path\<in>set (search_dockerfiles env self k slug).
                        get_file_content env self k slug path \<noteq> [] \<and>
                        x \<in> extract_base_images self
                              (get_file_content env self k slug path))))" for x
  proof -
    define R where "R k repos \<longleftrightarrow>
        (\<exists>r\<in>set repos. \<exists>slug. r ''slug'' = Some slug \<and>
           (\<exists>path\<in>set (search_dockerfiles env self k slug).
              get_file_content env self k slug path \<noteq> [] \<and>
              x \<in> extract_base_images self (get_file_content env self k slug path)))"
      for k repos
    have a: "x \<in> base_images self' \<longleftrightarrow>
         x \<in> base_images self \<or>
         (\<exists>p\<in>set (map ?mk (ks1 @ ks2)). \<exists>k repos. p ''key'' = Some k \<and>
            get_repositories env self k = Some repos \<and> R k repos)"
      unfolding R_def by (rule scan_projects_images [OF sp])
    have b: "(\<exists>p\<in>set (map ?mk (ks1 @ ks2)). \<exists>k repos. p ''key'' = Some k \<and>
            get_repositories env self k = Some repos \<and> R k repos) \<longleftrightarrow>
          (\<exists>k\<in>set (ks1 @ ks2). \<exists>repos. get_repositories env self k = Some repos \<and> R k repos)"
      by (rule Bex_key_dicts)
    from a [unfolded b] show ?thesis unfolding R_def .
  qed
  from loop same ret char show ?thesis by (simp only: simp_thms) blast
qed

text \<open>
  Claim C10.  \<open>scan\<close> starts from the accumulator the object holds and only adds
  to it: the set a call returns contains the accumulator it started with, so
  the second of two calls on one object returns a superset of what the first
  returned, whatever server and project keys the second call is given.  (The
  lemmas \<open>scan_files_mono\<close>, \<open>scan_repos_mono\<close> and \<open>scan_projects_mono\<close> say the
  same of every step of the walk.)
\<close>

theorem base_images_only_grows:
  assumes "scan env1 self keys1 = Some (Inr images1, self1)"
    and "scan env2 self1 keys2 = Some (Inr images2, self2)"
  shows "base_images self \<subseteq> images1 \<and> images1 \<subseteq> images2"
proof -
  from assms(1) obtain ps1 where "scan_projects env1 ps1 self = Some (None, self1)"
    and i1: "images1 = base_images self1"
    by (rule scan_Inr)
  then have a: "base_images self \<subseteq> images1"
    using scan_projects_mono [of env1 ps1 self None self1] by simp
  from assms(2) obtain ps2 where "scan_projects env2 ps2 self1 = Some (None, self2)"
    and "images2 = base_images self2"
    by (rule scan_Inr)
  then have "images1 \<subseteq> images2"
    using scan_projects_mono [of env2 ps2 self1 None self2] i1 by simp
  with a show ?thesis by simp
qed

lemma partial_repos_A:
  "get_repositories partial_server (init ''https://bitbucket.example.com'') ''A''
   = Some [[''slug'' \<mapsto> ''web''], [''slug'' \<mapsto> ''api'']]"
  unfolding get_repositories_def
  by (subst get_repositories_loop.simps)
     (simp add: partial_server_def repos_url_def sc0_url dict_get_def)

lemma partial_repos_C:
  "get_repositories partial_server (init ''https://bitbucket.example.com'') ''C''
   = Some [[''slug'' \<mapsto> ''job'']]"
  unfolding get_repositories_def
  by (subst get_repositories_loop.simps)
     (simp add: partial_server_def repos_url_def sc0_url dict_get_def)

lemma partial_search_web:
  "search_dockerfiles partial_server (init ''https://bitbucket.example.com'') ''A'' ''web''
   = [''Dockerfile'', ''Dockerfile.dev'', ''build/Dockerfile.prod'']"
  by code_simp

lemma partial_scan:
  "scan partial_server (init ''https://bitbucket.example.com'') (Some [''A'', ''B'', ''C''])
   = Some (Inr {''nginx:1.25'', ''python:3.12'', ''alpine:3.19''},
           \<lparr>base_url = ''https://bitbucket.example.com'',
            base_images = {''nginx:1.25'', ''python:3.12'', ''alpine:3.19''}\<rparr>)"
  by code_simp

theorem partial_failure_keeps_going_witness:
  "get_repositories_loop partial_server
       \<lparr>base_url = ''https://bitbucket.example.com'', base_images = {''nginx:1.25'', ''python:3.12''}\<rparr> ''B''
       (repos_url (init ''https://bitbucket.example.com'') ''B'') [[''slug'' \<mapsto> ''web'']]
     = Some [[''slug'' \<mapsto> ''web'']] \<and>
   scan partial_server (init ''https://bitbucket.example.com'') (Some [''A'', ''B'', ''C''])
     = scan partial_server (init ''https://bitbucket.example.com'') (Some [''A'', ''C'']) \<and>
   scan partial_server (init ''https://bitbucket.example.com'') (Some [''A'', ''B'', ''C''])
     = Some (Inr {''nginx:1.25'', ''python:3.12'', ''alpine:3.19''},
             \<lparr>base_url = ''https://bitbucket.example.com'',
              base_images = {''nginx:1.25'', ''python:3.12'', ''alpine:3.19''}\<rparr>) \<and>
   (\<forall>x. x \<in> {''nginx:1.25'', ''python:3.12'', ''alpine:3.19''} \<longleftrightarrow>
      x \<in> base_images (init ''https://bitbucket.example.com'') \<or>
      (\<exists>k\<in>set [''A'', ''C'']. \<exists>repos.
         get_repositories partial_server (init ''https://bitbucket.example.com'') k = Some repos \<and>
         (\<exists>r\<in>set repos. \<exists>slug. r ''slug'' = Some slug \<and>
            (\<exists>path\<in>set (search_dockerfiles partial_server (init ''https://bitbucket.example.com'') k slug).
               get_file_content partial_server (init ''https://bitbucket.example.com'') k slug path \<noteq> [] \<and>
               x \<in> extract_base_images (init ''https://bitbucket.example.com'')
                     (get_file_content partial_server (init ''https://bitbucket.example.com'') k slug path)))))"
proof -
  have h1: "get_json_dicts partial_server (repos_url (init ''https://bitbucket.example.com'') ''B'') [(''limit'', 100)]
            = Inl (RequestException ''500'')"
    by (simp add: partial_server_def repos_url_def sc0_url)
  have h2: "[''A''] @ [''C''] \<noteq> []" by simp
  have h3: "\<forall>k\<in>set ([''A''] @ [''C'']). \<exists>repos.
              get_repositories partial_server (init ''https://bitbucket.example.com'') k = Some repos \<and>
              (\<forall>r\<in>set repos. r ''slug'' \<noteq> None)"
    by (simp add: partial_repos_A partial_repos_C)
  have ap: "[''A''] @ [''B''] @ [''C''] = [''A'', ''B'', ''C'']" "[''A''] @ [''C''] = [''A'', ''C'']"
    by simp_all
  note w = partial_failure_keeps_going [where ?ks1.0 = "[''A'']" and ?ks2.0 = "[''C'']"
      and s = "\<lparr>base_url = ''https://bitbucket.example.com'', base_images = {''nginx:1.25'', ''python:3.12''}\<rparr>"
      and acc = "[[''slug'' \<mapsto> ''web'']]", OF h1 h2 h3, unfolded ap]
  from w have a: "get_repositories_loop partial_server
       \<lparr>base_url = ''https://bitbucket.example.com'', base_images = {''nginx:1.25'', ''python:3.12''}\<rparr> ''B''
       (repos_url (init ''https://bitbucket.example.com'') ''B'') [[''slug'' \<mapsto> ''web'']]
     = Some [[''slug'' \<mapsto> ''web'']]"
    by (rule conjunct1)
  from w have b: "scan partial_server (init ''https://bitbucket.example.com'') (Some [''A'', ''B'', ''C''])
     = scan partial_server (init ''https://bitbucket.example.com'') (Some [''A'', ''C''])"
    by (rule conjunct1 [OF conjunct2])
  from w obtain images self' where
    r: "scan partial_server (init ''https://bitbucket.example.com'') (Some [''A'', ''B'', ''C'']) = Some (Inr images, self')"
    and c: "\<forall>x. x \<in> images \<longleftrightarrow>
      x \<in> base_images (init ''https://bitbucket.example.com'') \<or>
      (\<exists>k\<in>set [''A'', ''C'']. \<exists>repos.
         get_repositories partial_server (init ''https://bitbucket.example.com'') k = Some repos \<and>
         (\<exists>r\<in>set repos. \<exists>slug. r ''slug'' = Some slug \<and>
            (\<exists>path\<in>set (search_dockerfiles partial_server (init ''https://bitbucket.example.com'') k slug).
               get_file_content partial_server (init ''https://bitbucket.example.com'') k slug path \<noteq> [] \<and>
               x \<in> extract_base_images (init ''https://bitbucket.example.com'')
                     (get_file_content partial_server (init ''https://bitbucket.example.com'') k slug path))))"
    by blast
  from r have i: "images = {''nginx:1.25'', ''python:3.12'', ''alpine:3.19''}"
    unfolding partial_scan by simp
  from a b partial_scan c [unfolded i] show ?thesis
    by (intro conjI)
qed

theorem base_images_only_grows_witness:
  "scan demo_server (init ''https://bitbucket.example.com'') (Some [''P1''])
     = Some (Inr {''node:18'', ''node:18-slim''},
             \<lparr>base_url = ''https://bitbucket.example.com'',
              base_images = {''node:18'', ''node:18-slim''}\<rparr>) \<and>
   scan demo_server
     \<lparr>base_url = ''https://bitbucket.example.com'',
      base_images = {''node:18'', ''node:18-slim''}\<rparr> (Some [''P3''])
     = Some (Inr {''node:18'', ''node:18-slim'', ''golang:1.21''},
             \<lparr>base_url = ''https://bitbucket.example.com'',
              base_images = {''node:18'', ''node:18-slim'', ''golang:1.21''}\<rparr>) \<and>
   base_images (init ''https://bitbucket.example.com'') \<subseteq> {''node:18'', ''node:18-slim''} \<and>
   {''node:18'', ''node:18-slim''} \<subseteq> {''node:18'', ''node:18-slim'', ''golang:1.21''}"
  using base_images_only_grows [OF demo_scan_P1 demo_scan_P3] demo_scan_P1 demo_scan_P3
  by (simp only: simp_thms)

end
